theory Spec2Isabelle
  imports Complex_Main
begin

section \<open>A two-agent world on a line of five positions (thesisv2.py)\<close>

text \<open>
  The embedding follows \<^verbatim>\<open>thesisv2.py\<close> function by function.

  \<^item> Python integers are \<open>int\<close>. The rewards are the floats \<open>-1.0\<close>, \<open>0.0\<close> and \<open>1.0\<close>
    and the only arithmetic on them is \<open>+= 1.0\<close> on one of these, which is exact in
    binary floating point; they are modelled as \<open>real\<close>.
  \<^item> \<^verbatim>\<open>self.positions\<close> is a reference to a list object that \<^verbatim>\<open>step\<close> mutates in place
    and that \<^verbatim>\<open>reset\<close> and \<^verbatim>\<open>step\<close> copy before returning. The list objects live in an
    explicit store, and a position list is known by its address.
  \<^item> Exceptions are values of \<open>py_error\<close>; a function that can raise returns
    \<open>py_error + 'a\<close>, and \<open>Inl\<close> carries the exception alone, not the store it leaves
    behind.
  \<^item> A decision function reads the environment and its own position. It may consume an
    outside source (the source's \<^verbatim>\<open>dialogue_policy\<close> draws from numpy's global generator),
    so it threads a value of an arbitrary type \<open>'w\<close>. \<open>step\<close> is the step for decision
    functions that do not write to the environment; \<open>step_live\<close> covers those that write
    to the store, and the two agree on the functions that only read (\<open>step_live_lift\<close>).
\<close>

subsection \<open>Exceptions and the store of list objects\<close>

datatype py_error = AssertionError string | AttributeError string | IndexError

type_synonym addr = nat

record heap =
  cell :: "addr \<Rightarrow> int list"
  fresh :: addr

definition empty_heap :: heap where
  "empty_heap = \<lparr>cell = (\<lambda>a. []), fresh = 0\<rparr>"

text \<open>A list display such as \<^verbatim>\<open>[0, 2]\<close> creates a new object.\<close>

definition new_list :: "int list \<Rightarrow> heap \<Rightarrow> addr \<times> heap" where
  "new_list xs h = (fresh h, h\<lparr>cell := (cell h)(fresh h := xs), fresh := Suc (fresh h)\<rparr>)"

text \<open>\<^verbatim>\<open>xs.copy()\<close>: a new object with the elements of the old one.\<close>

definition list_copy :: "addr \<Rightarrow> heap \<Rightarrow> addr \<times> heap" where
  "list_copy a h = new_list (cell h a) h"

text \<open>\<^verbatim>\<open>xs[i]\<close> and \<^verbatim>\<open>xs[i] = v\<close> for an index \<open>i \<ge> 0\<close>; both raise IndexError out of range.\<close>

definition get_item :: "heap \<Rightarrow> addr \<Rightarrow> nat \<Rightarrow> py_error + int" where
  "get_item h a i = (if i < length (cell h a) then Inr (cell h a ! i) else Inl IndexError)"

definition set_item :: "addr \<Rightarrow> nat \<Rightarrow> int \<Rightarrow> heap \<Rightarrow> py_error + heap" where
  "set_item a i v h =
     (if i < length (cell h a) then Inr (h\<lparr>cell := (cell h)(a := (cell h a)[i := v])\<rparr>)
      else Inl IndexError)"

subsection \<open>NPCPolicy\<close>

text \<open>
  What a decision function can read of the environment it is handed: the three
  constants, the contents of the position list at the time of the call, and the role
  and name of each agent.
\<close>

record env_view =
  view_num_positions :: int
  view_goal :: int
  view_num_actions :: int
  view_positions :: "int list"
  view_agents :: "(string \<times> string) list"

type_synonym 'w policy_fn = "env_view \<Rightarrow> int \<Rightarrow> 'w \<Rightarrow> int \<times> 'w"

record 'w NPCPolicy =
  role :: string
  policy_func :: "'w policy_fn"
  policy_goal :: "int option"
  name :: string

text \<open>
  \<^verbatim>\<open>NPCPolicy.__init__\<close>: \<^verbatim>\<open>policy_func or (lambda env, state: 0)\<close> and \<^verbatim>\<open>name or role\<close>;
  \<^verbatim>\<open>None\<close> and the empty string are false. The role is always given (the source's
  default for it is \<^verbatim>\<open>"Ally"\<close>).
\<close>

definition NPCPolicy_init ::
  "string \<Rightarrow> 'w policy_fn option \<Rightarrow> int option \<Rightarrow> string option \<Rightarrow> 'w NPCPolicy" where
  "NPCPolicy_init r pf g n =
     \<lparr>role = r,
      policy_func = (case pf of None \<Rightarrow> (\<lambda>env state w. (0, w)) | Some f \<Rightarrow> f),
      policy_goal = g,
      name = (case n of None \<Rightarrow> r | Some s \<Rightarrow> if s = [] then r else s)\<rparr>"

definition act :: "'w NPCPolicy \<Rightarrow> env_view \<Rightarrow> int \<Rightarrow> 'w \<Rightarrow> int \<times> 'w" where
  "act self env state w = policy_func self env state w"

subsection \<open>TwoAgentEnv\<close>

text \<open>
  \<open>positions\<close> is \<open>None\<close> while the attribute is not yet bound, which is the case inside
  \<^verbatim>\<open>__init__\<close> before it calls \<^verbatim>\<open>reset\<close>.
\<close>

record 'w TwoAgentEnv =
  num_positions :: int
  goal :: int
  num_actions :: int
  agent_policies :: "'w NPCPolicy list"
  positions :: "addr option"

definition view_of :: "'w TwoAgentEnv \<Rightarrow> int list \<Rightarrow> env_view" where
  "view_of self ps =
     \<lparr>view_num_positions = num_positions self,
      view_goal = goal self,
      view_num_actions = num_actions self,
      view_positions = ps,
      view_agents = map (\<lambda>agent. (role agent, name agent)) (agent_policies self)\<rparr>"

definition reset :: "'w TwoAgentEnv \<Rightarrow> heap \<Rightarrow> addr \<times> 'w TwoAgentEnv \<times> heap" where
  "reset self h =
     (let (p, h1) = new_list [0, 2] h;
          self' = self\<lparr>positions := Some p\<rparr>;
          (c, h2) = list_copy p h1
      in (c, self', h2))"

text \<open>
  \<^verbatim>\<open>__init__\<close>: the \<^verbatim>\<open>assert\<close> on the number of agents (as the interpreter runs it
  by default, with assertions on), the four attributes, and the call of \<^verbatim>\<open>reset\<close>, whose
  returned copy is dropped.
\<close>

definition TwoAgentEnv_init ::
  "'w NPCPolicy list \<Rightarrow> heap \<Rightarrow> py_error + ('w TwoAgentEnv \<times> heap)" where
  "TwoAgentEnv_init policies h =
     (if length policies = 2 then
        (let self = \<lparr>num_positions = 5, goal = 4, num_actions = 2,
                     agent_policies = policies, positions = None\<rparr>;
             (c, self', h') = reset self h
         in Inr (self', h'))
      else Inl (AssertionError ''This environment expects exactly 2 agents.''))"

text \<open>
  \<^verbatim>\<open>[agent.act(self, pos) for agent, pos in zip(self.agent_policies, self.positions)]\<close>:
  the agents are asked in order, each with the same environment.
\<close>

fun choose_actions ::
  "env_view \<Rightarrow> ('w NPCPolicy \<times> int) list \<Rightarrow> 'w \<Rightarrow> int list \<times> 'w" where
  "choose_actions env [] w = ([], w)"
| "choose_actions env ((agent, pos) # rest) w =
     (let (action, w1) = act agent env pos w;
          (actions, w2) = choose_actions env rest w1
      in (action # actions, w2))"

text \<open>The body of the movement loop: what one action does to one position.\<close>

definition move :: "int \<Rightarrow> int \<Rightarrow> int \<Rightarrow> int" where
  "move np action x = (if action = 0 then max 0 (x - 1) else min (np - 1) (x + 1))"

text \<open>\<^verbatim>\<open>for i, action in enumerate(actions): self.positions[i] = ...\<close>\<close>

fun update_positions :: "int \<Rightarrow> addr \<Rightarrow> (nat \<times> int) list \<Rightarrow> heap \<Rightarrow> py_error + heap" where
  "update_positions np p [] h = Inr h"
| "update_positions np p ((i, action) # rest) h =
     (case get_item h p i of
        Inl e \<Rightarrow> Inl e
      | Inr x \<Rightarrow>
          (case set_item p i (move np action x) h of
             Inl e \<Rightarrow> Inl e
           | Inr h' \<Rightarrow> update_positions np p rest h'))"

text \<open>
  The collision test replaces the reward list when both agents stand on one position
  that is not the goal.
\<close>

definition collision_rewards :: "int \<Rightarrow> addr \<Rightarrow> heap \<Rightarrow> real list \<Rightarrow> py_error + real list" where
  "collision_rewards g p h rewards =
     (case get_item h p 0 of
        Inl e \<Rightarrow> Inl e
      | Inr x0 \<Rightarrow>
          (case get_item h p 1 of
             Inl e \<Rightarrow> Inl e
           | Inr x1 \<Rightarrow> Inr (if x0 = x1 \<and> x0 \<noteq> g then [-1, -1] else rewards)))"

text \<open>\<^verbatim>\<open>for i in range(2): if self.positions[i] == self.goal: rewards[i] += 1.0; done = True\<close>\<close>

fun goal_rewards ::
  "int \<Rightarrow> addr \<Rightarrow> heap \<Rightarrow> nat list \<Rightarrow> real list \<times> bool \<Rightarrow> py_error + (real list \<times> bool)" where
  "goal_rewards g p h [] rd = Inr rd"
| "goal_rewards g p h (i # rest) (rewards, done) =
     (case get_item h p i of
        Inl e \<Rightarrow> Inl e
      | Inr x \<Rightarrow>
          if x = g then
            (if i < length rewards
             then goal_rewards g p h rest (rewards[i := rewards ! i + 1], True)
             else Inl IndexError)
          else goal_rewards g p h rest (rewards, done))"

text \<open>The info dictionaries, each with the keys role, name and pos in this order.\<close>

datatype py_value = PyStr string | PyInt int

type_synonym info = "(string \<times> py_value) list"

definition info_dict :: "string \<Rightarrow> string \<Rightarrow> int \<Rightarrow> info" where
  "info_dict r n pos = [(''role'', PyStr r), (''name'', PyStr n), (''pos'', PyInt pos)]"

definition build_info :: "'w NPCPolicy list \<Rightarrow> int list \<Rightarrow> info list" where
  "build_info policies ps =
     map (\<lambda>(agent, pos). info_dict (role agent) (name agent) pos) (zip policies ps)"

type_synonym step_result = "addr \<times> real list \<times> bool \<times> info list"

text \<open>
  The first statement of \<^verbatim>\<open>step\<close>, for decision functions that only read: no call
  changes the store, so every agent is asked on the position list as it is when
  \<^verbatim>\<open>step\<close> is entered. Functions that write are the matter of \<open>step_live\<close> below.
\<close>

definition query_actions :: "'w TwoAgentEnv \<Rightarrow> addr \<Rightarrow> heap \<Rightarrow> 'w \<Rightarrow> int list \<times> 'w" where
  "query_actions self p h w =
     choose_actions (view_of self (cell h p)) (zip (agent_policies self) (cell h p)) w"

text \<open>
  \<^verbatim>\<open>step\<close> leaves the attributes of the environment as they are and writes to the
  position list only; it returns its result, the store and the outside source.
\<close>

definition step ::
  "'w TwoAgentEnv \<Rightarrow> heap \<Rightarrow> 'w \<Rightarrow> py_error + (step_result \<times> heap \<times> 'w)" where
  "step self h w =
     (case positions self of
        None \<Rightarrow> Inl (AttributeError ''positions'')
      | Some p \<Rightarrow>
          (let (actions, w') = query_actions self p h w
           in case update_positions (num_positions self) p (enumerate 0 actions) h of
                Inl e \<Rightarrow> Inl e
              | Inr h1 \<Rightarrow>
                  (case collision_rewards (goal self) p h1 [0, 0] of
                     Inl e \<Rightarrow> Inl e
                   | Inr rewards \<Rightarrow>
                       (case goal_rewards (goal self) p h1 [0..<2] (rewards, False) of
                          Inl e \<Rightarrow> Inl e
                        | Inr (rewards', done) \<Rightarrow>
                            (let info = build_info (agent_policies self) (cell h1 p);
                                 (c, h2) = list_copy p h1
                             in Inr ((c, rewards', done, info), h2, w'))))))"

subsection \<open>Decision functions that write to the store\<close>

text \<open>
  \<^verbatim>\<open>agent.act(self, pos)\<close> hands the decision function the environment itself, so a
  function can write to the position list while the actions are still being collected.
  Such a function takes the store with the outside source and returns both: it is a
  decision function whose outside source is a pair of the store and a source \<open>'u\<close>.
  The attributes of the environment stay out of its reach.
\<close>

text \<open>
  The comprehension with the store in the hands of the functions. \<^verbatim>\<open>zip\<close> takes the
  next agent and then the next position, if the list has one at that moment; the agent's
  function is called with the environment as it is then, and what it writes is there
  for the calls that follow.
\<close>

fun choose_actions_live ::
  "(heap \<times> 'u) TwoAgentEnv \<Rightarrow> addr \<Rightarrow> nat \<Rightarrow> (heap \<times> 'u) NPCPolicy list \<Rightarrow> heap \<Rightarrow> 'u \<Rightarrow>
     int list \<times> heap \<times> 'u" where
  "choose_actions_live self p i [] h u = ([], h, u)"
| "choose_actions_live self p i (agent # rest) h u =
     (if i < length (cell h p) then
        (case act agent (view_of self (cell h p)) (cell h p ! i) (h, u) of
           (action, (h1, u1)) \<Rightarrow>
             (case choose_actions_live self p (Suc i) rest h1 u1 of
                (actions, h2, u2) \<Rightarrow> (action # actions, h2, u2)))
      else ([], h, u))"

definition query_actions_live ::
  "(heap \<times> 'u) TwoAgentEnv \<Rightarrow> addr \<Rightarrow> heap \<Rightarrow> 'u \<Rightarrow> int list \<times> heap \<times> 'u" where
  "query_actions_live self p h u = choose_actions_live self p 0 (agent_policies self) h u"

text \<open>\<^verbatim>\<open>step\<close> as above, with the store as the decision functions leave it.\<close>

definition step_live ::
  "(heap \<times> 'u) TwoAgentEnv \<Rightarrow> heap \<Rightarrow> 'u \<Rightarrow> py_error + (step_result \<times> heap \<times> 'u)" where
  "step_live self h u =
     (case positions self of
        None \<Rightarrow> Inl (AttributeError ''positions'')
      | Some p \<Rightarrow>
          (case query_actions_live self p h u of
             (actions, h0, u') \<Rightarrow>
               (case update_positions (num_positions self) p (enumerate 0 actions) h0 of
                  Inl e \<Rightarrow> Inl e
                | Inr h1 \<Rightarrow>
                    (case collision_rewards (goal self) p h1 [0, 0] of
                       Inl e \<Rightarrow> Inl e
                     | Inr rewards \<Rightarrow>
                         (case goal_rewards (goal self) p h1 [0..<2] (rewards, False) of
                            Inl e \<Rightarrow> Inl e
                          | Inr (rewards', done) \<Rightarrow>
                              (let info = build_info (agent_policies self) (cell h1 p);
                                   (c, h2) = list_copy p h1
                               in Inr ((c, rewards', done, info), h2, u')))))))"

text \<open>A decision function that only reads, as one that is handed the store and returns it.\<close>

definition lift_policy :: "'u NPCPolicy \<Rightarrow> (heap \<times> 'u) NPCPolicy" where
  "lift_policy a =
     \<lparr>role = role a,
      policy_func =
        (\<lambda>env state w. case w of (h, u) \<Rightarrow>
           (case policy_func a env state u of (c, u') \<Rightarrow> (c, (h, u')))),
      policy_goal = policy_goal a,
      name = name a\<rparr>"

definition lift_env :: "'u TwoAgentEnv \<Rightarrow> (heap \<times> 'u) TwoAgentEnv" where
  "lift_env self =
     \<lparr>num_positions = num_positions self, goal = goal self, num_actions = num_actions self,
      agent_policies = map lift_policy (agent_policies self), positions = positions self\<rparr>"

subsection \<open>The example policies and the driver's loop\<close>

definition ally_policy :: "'w policy_fn" where
  "ally_policy env state w = (1, w)"

definition competitive_policy :: "'w policy_fn" where
  "competitive_policy env state w = (0, w)"

text \<open>
  \<^verbatim>\<open>np.random.randint(2)\<close> is 0 or 1; the outside source is the sequence of the
  generator's future draws and a count of those already taken.
\<close>

definition dialogue_policy :: "((nat \<Rightarrow> bool) \<times> nat) policy_fn" where
  "dialogue_policy env state w =
     (case w of (draws, k) \<Rightarrow> ((if draws k then 1 else 0), (draws, Suc k)))"

text \<open>
  \<^verbatim>\<open>for step in range(n): state, rewards, done, info = env.step(); print(...); if done: break\<close>.
  The loop's trace: for each iteration the contents of the returned state, the
  rewards, the done flag and the info.
\<close>

type_synonym trace_entry = "int list \<times> real list \<times> bool \<times> info list"

fun episode ::
  "nat \<Rightarrow> 'w TwoAgentEnv \<Rightarrow> heap \<Rightarrow> 'w \<Rightarrow> py_error + (trace_entry list \<times> heap \<times> 'w)" where
  "episode 0 env h w = Inr ([], h, w)"
| "episode (Suc n) env h w =
     (case step env h w of
        Inl e \<Rightarrow> Inl e
      | Inr ((state, rewards, done, info), h1, w1) \<Rightarrow>
          if done then Inr ([(cell h1 state, rewards, done, info)], h1, w1)
          else
            (case episode n env h1 w1 of
               Inl e \<Rightarrow> Inl e
             | Inr (entries, h2, w2) \<Rightarrow>
                 Inr ((cell h1 state, rewards, done, info) # entries, h2, w2)))"

text \<open>
  One match of the driver: \<^verbatim>\<open>env = TwoAgentEnv([...]); state = env.reset()\<close> and the
  loop of at most 10 steps.
\<close>

definition run_match ::
  "'w NPCPolicy list \<Rightarrow> heap \<Rightarrow> 'w \<Rightarrow> py_error + (trace_entry list \<times> heap \<times> 'w)" where
  "run_match policies h w =
     (case TwoAgentEnv_init policies h of
        Inl e \<Rightarrow> Inl e
      | Inr (env, h1) \<Rightarrow>
          (let (state, env', h2) = reset env h1 in episode 10 env' h2 w))"

text \<open>The agents of the driver.\<close>

definition agent_main :: "'w NPCPolicy" where
  "agent_main = NPCPolicy_init ''Main'' (Some ally_policy) None (Some ''main_agent'')"

definition agent_ally :: "'w NPCPolicy" where
  "agent_ally = NPCPolicy_init ''Ally'' (Some ally_policy) None (Some ''ally_npc'')"

definition agent_competitive :: "'w NPCPolicy" where
  "agent_competitive =
     NPCPolicy_init ''Competitive'' (Some competitive_policy) None (Some ''competitor_npc'')"

definition agent_dialogue :: "((nat \<Rightarrow> bool) \<times> nat) NPCPolicy" where
  "agent_dialogue = NPCPolicy_init ''Dialogue'' (Some dialogue_policy) None (Some ''dialogue_npc'')"

subsection \<open>Notions used to state the properties\<close>

text \<open>The contents of the environment's own position list.\<close>

definition pos_list :: "'w TwoAgentEnv \<Rightarrow> heap \<Rightarrow> int list" where
  "pos_list self h = (case positions self of None \<Rightarrow> [] | Some p \<Rightarrow> cell h p)"

text \<open>What \<^verbatim>\<open>__init__\<close> establishes and neither \<^verbatim>\<open>reset\<close> nor \<^verbatim>\<open>step\<close> changes.\<close>

definition env_consts_ok :: "'w TwoAgentEnv \<Rightarrow> bool" where
  "env_consts_ok self \<longleftrightarrow>
     num_positions self = 5 \<and> goal self = 4 \<and> num_actions self = 2 \<and>
     length (agent_policies self) = 2"

definition env_ok :: "'w TwoAgentEnv \<Rightarrow> heap \<Rightarrow> bool" where
  "env_ok self h \<longleftrightarrow>
     env_consts_ok self \<and>
     (case positions self of
        None \<Rightarrow> False
      | Some p \<Rightarrow> p < fresh h \<and> length (cell h p) = 2)"

definition in_range :: "'w TwoAgentEnv \<Rightarrow> heap \<Rightarrow> bool" where
  "in_range self h \<longleftrightarrow> list_all (\<lambda>x. 0 \<le> x \<and> x \<le> 4) (pos_list self h)"



text \<open>
  The environments and stores a program can arrive at: after a construction, after a
  step, after a reset, and after anything else that allocates or writes objects other
  than the environment's own position list (such as a write to a returned copy).
\<close>

inductive reachable :: "'w TwoAgentEnv \<Rightarrow> heap \<Rightarrow> bool" where
  constructed: "TwoAgentEnv_init policies h = Inr (self, h') \<Longrightarrow> reachable self h'"
| stepped: "reachable self h \<Longrightarrow> step self h w = Inr (r, h', w') \<Longrightarrow> reachable self h'"
| reset_again: "reachable self h \<Longrightarrow> reset self h = (c, self', h') \<Longrightarrow> reachable self' h'"
| elsewhere:
    "reachable self h \<Longrightarrow> positions self = Some p \<Longrightarrow> cell h' p = cell h p \<Longrightarrow>
     fresh h \<le> fresh h' \<Longrightarrow> reachable self h'"

text \<open>\<open>n\<close> calls of \<^verbatim>\<open>step\<close> in a row, whatever the done flags.\<close>

fun steps :: "nat \<Rightarrow> 'w TwoAgentEnv \<Rightarrow> heap \<Rightarrow> 'w \<Rightarrow> py_error + (heap \<times> 'w)" where
  "steps 0 self h w = Inr (h, w)"
| "steps (Suc n) self h w =
     (case step self h w of
        Inl e \<Rightarrow> Inl e
      | Inr (r, h1, w1) \<Rightarrow> steps n self h1 w1)"

text \<open>The rewards of one step in closed form, from the two positions after the move.\<close>

definition step_rewards :: "int \<Rightarrow> int \<Rightarrow> int \<Rightarrow> real list" where
  "step_rewards g y0 y1 =
     (if y0 = y1 \<and> y0 \<noteq> g then [-1, -1]
      else [if y0 = g then 1 else 0, if y1 = g then 1 else 0])"

text \<open>A policy whose decision is cut down to the two actions: 0 stays 0, all else is 1.\<close>

definition binary_policy :: "'w NPCPolicy \<Rightarrow> 'w NPCPolicy" where
  "binary_policy a =
     a\<lparr>policy_func :=
         (\<lambda>env state w. case policy_func a env state w of
                           (c, w') \<Rightarrow> ((if c = 0 then 0 else 1), w'))\<rparr>"

text \<open>An environment in order whose position list, at address 0, holds the given positions.\<close>

definition env_at :: "'w NPCPolicy list \<Rightarrow> 'w TwoAgentEnv" where
  "env_at policies =
     \<lparr>num_positions = 5, goal = 4, num_actions = 2, agent_policies = policies,
      positions = Some 0\<rparr>"

definition heap_at :: "int list \<Rightarrow> heap" where
  "heap_at xs = \<lparr>cell = (\<lambda>a. [])(0 := xs), fresh = 1\<rparr>"





text \<open>A decision function that always answers the given integer.\<close>

definition constant_policy :: "int \<Rightarrow> 'w policy_fn" where
  "constant_policy k env state w = (k, w)"

section \<open>Each stage of a step on two agents and two positions\<close>

lemma range2: "[0..<2] = [0, Suc 0]"
  by (simp add: upt_rec)

lemma choose_actions_two:
  assumes "policy_func a0 env x0 w = (c0, w1)" "policy_func a1 env x1 w1 = (c1, w2)"
  shows "choose_actions env [(a0, x0), (a1, x1)] w = ([c0, c1], w2)"
  using assms by (simp add: act_def)

lemma query_actions_two:
  assumes "agent_policies self = [a0, a1]" "cell h p = [x0, x1]"
    and "policy_func a0 (view_of self [x0, x1]) x0 w = (c0, w1)"
    and "policy_func a1 (view_of self [x0, x1]) x1 w1 = (c1, w2)"
  shows "query_actions self p h w = ([c0, c1], w2)"
  using choose_actions_two[OF assms(3,4)] by (simp add: query_actions_def assms(1,2))

lemma update_positions_two:
  assumes "cell h p = [x0, x1]"
  shows "update_positions np p [(0, c0), (Suc 0, c1)] h =
           Inr (h\<lparr>cell := (cell h)(p := [move np c0 x0, move np c1 x1])\<rparr>)"
  using assms by (simp add: get_item_def set_item_def)

lemma collision_rewards_two:
  assumes "cell h p = [y0, y1]"
  shows "collision_rewards g p h rw = Inr (if y0 = y1 \<and> y0 \<noteq> g then [-1, -1] else rw)"
  using assms by (simp add: collision_rewards_def get_item_def)

lemma goal_rewards_two:
  assumes "cell h p = [y0, y1]"
  shows "goal_rewards g p h [0, Suc 0] ([r0, r1], False) =
           Inr ([if y0 = g then r0 + 1 else r0, if y1 = g then r1 + 1 else r1], y0 = g \<or> y1 = g)"
  using assms by (simp add: get_item_def)

text \<open>One step, given what the two decision functions answer.\<close>

lemma step_two:
  assumes "positions self = Some p" "agent_policies self = [a0, a1]" "cell h p = [x0, x1]"
    and "policy_func a0 (view_of self [x0, x1]) x0 w = (c0, w1)"
    and "policy_func a1 (view_of self [x0, x1]) x1 w1 = (c1, w2)"
    and "y0 = move (num_positions self) c0 x0" "y1 = move (num_positions self) c1 x1"
  shows "step self h w =
     Inr ((fresh h, step_rewards (goal self) y0 y1, y0 = goal self \<or> y1 = goal self,
           build_info [a0, a1] [y0, y1]),
          h\<lparr>cell := (cell h)(p := [y0, y1], fresh h := [y0, y1]), fresh := Suc (fresh h)\<rparr>, w2)"
proof -
  let ?h1 = "h\<lparr>cell := (cell h)(p := [y0, y1])\<rparr>"
  have ca: "query_actions self p h w = ([c0, c1], w2)"
    by (rule query_actions_two[OF assms(2,3,4,5)])
  have up: "update_positions (num_positions self) p [(0, c0), (Suc 0, c1)] h = Inr ?h1"
    using update_positions_two[OF assms(3), of "num_positions self" c0 c1]
    by (simp only: assms(6,7))
  have c1: "cell ?h1 p = [y0, y1]" by simp
  obtain r0 r1 where cr: "collision_rewards (goal self) p ?h1 [0, 0] = Inr [r0, r1]"
    and r: "[r0, r1] = (if y0 = y1 \<and> y0 \<noteq> goal self then [-1, -1] else [0, 0])"
    using collision_rewards_two[OF c1, of "goal self" "[0, 0]"]
    by (cases "y0 = y1 \<and> y0 \<noteq> goal self") auto
  have gr: "goal_rewards (goal self) p ?h1 [0, Suc 0] ([r0, r1], False) =
      Inr (step_rewards (goal self) y0 y1, y0 = goal self \<or> y1 = goal self)"
    using r unfolding goal_rewards_two[OF c1] step_rewards_def
    by (cases "y0 = y1 \<and> y0 \<noteq> goal self") auto
  have cp: "list_copy p ?h1 = (fresh h,
      h\<lparr>cell := (cell h)(p := [y0, y1], fresh h := [y0, y1]), fresh := Suc (fresh h)\<rparr>)"
    by (simp add: list_copy_def new_list_def)
  show ?thesis
    unfolding step_def
    by (simp add: assms(1,2) ca up cr gr cp range2
        del: update_positions.simps choose_actions.simps goal_rewards.simps)
qed

text \<open>An environment in order has two agents and a list of two positions.\<close>

lemma env_okE:
  assumes "env_ok self h"
  obtains p a0 a1 x0 x1 where "positions self = Some p" "agent_policies self = [a0, a1]"
    "cell h p = [x0, x1]" "num_positions self = 5" "goal self = 4" "p < fresh h"
proof -
  from assms obtain p where p: "positions self = Some p" "p < fresh h" "length (cell h p) = 2"
    and c: "env_consts_ok self"
    by (auto simp: env_ok_def split: option.splits)
  from c have n: "num_positions self = 5" "goal self = 4" and l: "length (agent_policies self) = 2"
    by (simp_all add: env_consts_ok_def)
  from l obtain a0 a1 where a: "agent_policies self = [a0, a1]"
    by (auto simp: length_Suc_conv numeral_2_eq_2)
  from p(3) obtain x0 x1 where x: "cell h p = [x0, x1]"
    by (auto simp: length_Suc_conv numeral_2_eq_2)
  show thesis by (rule that[OF p(1) a x n p(2)])
qed

text \<open>
  The step of an environment in order never raises; its result is given by the two
  moved positions.
\<close>

lemma step_env_ok:
  assumes "env_ok self h"
  obtains p x0 x1 c0 c1 w' where
    "positions self = Some p" "p < fresh h" "cell h p = [x0, x1]"
    "query_actions self p h w = ([c0, c1], w')"
    "step self h w =
       Inr ((fresh h, step_rewards 4 (move 5 c0 x0) (move 5 c1 x1),
             move 5 c0 x0 = 4 \<or> move 5 c1 x1 = 4,
             build_info (agent_policies self) [move 5 c0 x0, move 5 c1 x1]),
            h\<lparr>cell := (cell h)(p := [move 5 c0 x0, move 5 c1 x1],
                                 fresh h := [move 5 c0 x0, move 5 c1 x1]),
              fresh := Suc (fresh h)\<rparr>, w')"
proof -
  from assms obtain p a0 a1 x0 x1 where e: "positions self = Some p"
    "agent_policies self = [a0, a1]" "cell h p = [x0, x1]" "num_positions self = 5"
    "goal self = 4" "p < fresh h"
    by (rule env_okE)
  obtain c0 w1 where f0: "policy_func a0 (view_of self [x0, x1]) x0 w = (c0, w1)"
    by (cases "policy_func a0 (view_of self [x0, x1]) x0 w")
  obtain c1 w2 where f1: "policy_func a1 (view_of self [x0, x1]) x1 w1 = (c1, w2)"
    by (cases "policy_func a1 (view_of self [x0, x1]) x1 w1")
  have q: "query_actions self p h w = ([c0, c1], w2)"
    by (rule query_actions_two[OF e(2,3) f0 f1])
  have s: "step self h w =
       Inr ((fresh h, step_rewards 4 (move 5 c0 x0) (move 5 c1 x1),
             move 5 c0 x0 = 4 \<or> move 5 c1 x1 = 4,
             build_info (agent_policies self) [move 5 c0 x0, move 5 c1 x1]),
            h\<lparr>cell := (cell h)(p := [move 5 c0 x0, move 5 c1 x1],
                                 fresh h := [move 5 c0 x0, move 5 c1 x1]),
              fresh := Suc (fresh h)\<rparr>, w2)"
    using step_two[OF e(1,2,3) f0 f1 refl refl] by (simp only: e(2,4,5))
  show thesis by (rule that[OF e(1,6,3) q s])
qed

lemma pos_list_after_step:
  assumes "positions self = Some p"
  shows "pos_list self (h\<lparr>cell := (cell h)(p := ys, fresh h := ys), fresh := n\<rparr>) = ys"
  using assms by (simp add: pos_list_def)

lemma env_ok_after_step:
  assumes "env_ok self h" "positions self = Some p"
  shows "env_ok self (h\<lparr>cell := (cell h)(p := [y0, y1], fresh h := [y0, y1]),
                       fresh := Suc (fresh h)\<rparr>)"
  using assms by (simp add: env_ok_def)

lemma move_in_range:
  assumes "0 \<le> x" "x \<le> 4"
  shows "0 \<le> move 5 c x \<and> move 5 c x \<le> 4"
  using assms by (simp add: move_def)

subsection \<open>Concrete environments\<close>

lemma env_ok_env_at: "env_ok (env_at [a0, a1]) (heap_at [x0, x1])"
  by (simp add: env_ok_def env_consts_ok_def env_at_def heap_at_def)

lemma step_env_at:
  assumes "policy_func a0 (view_of (env_at [a0, a1]) [x0, x1]) x0 w = (c0, w1)"
    and "policy_func a1 (view_of (env_at [a0, a1]) [x0, x1]) x1 w1 = (c1, w2)"
  shows "step (env_at [a0, a1]) (heap_at [x0, x1]) w =
     Inr ((1, step_rewards 4 (move 5 c0 x0) (move 5 c1 x1),
           move 5 c0 x0 = 4 \<or> move 5 c1 x1 = 4,
           build_info [a0, a1] [move 5 c0 x0, move 5 c1 x1]),
          \<lparr>cell = (\<lambda>a. [])(0 := [move 5 c0 x0, move 5 c1 x1], 1 := [move 5 c0 x0, move 5 c1 x1]),
           fresh = 2\<rparr>, w2)"
proof -
  have p: "positions (env_at [a0, a1]) = Some 0" "agent_policies (env_at [a0, a1]) = [a0, a1]"
    "cell (heap_at [x0, x1]) 0 = [x0, x1]"
    by (simp_all add: env_at_def heap_at_def)
  have n: "num_positions (env_at [a0, a1]) = 5" "goal (env_at [a0, a1]) = 4"
    by (simp_all add: env_at_def)
  show ?thesis
    using step_two[OF p assms refl refl] by (simp add: n heap_at_def)
qed

lemma main_moves: "policy_func agent_main env x w = (1, w)"
  by (simp add: agent_main_def NPCPolicy_init_def ally_policy_def)

lemma ally_moves: "policy_func agent_ally env x w = (1, w)"
  by (simp add: agent_ally_def NPCPolicy_init_def ally_policy_def)

lemma competitive_moves: "policy_func agent_competitive env x w = (0, w)"
  by (simp add: agent_competitive_def NPCPolicy_init_def competitive_policy_def)

section \<open>Rewards\<close>

text \<open>
  C1: in every call of step on an environment in order, when after the movement both
  positions are equal and are not the goal 4, the returned rewards are exactly
  \<open>[-1, -1]\<close>, whatever the store, the outside source and the decisions were. The
  call returns, and the returned list is a copy of the moved positions.
\<close>

theorem collision_penalty:
  assumes "env_ok self h"
  shows "\<exists>c rewards done info h' w'.
           step self h w = Inr ((c, rewards, done, info), h', w') \<and>
           cell h' c = pos_list self h' \<and>
           (pos_list self h' ! 0 = pos_list self h' ! 1 \<and> pos_list self h' ! 0 \<noteq> 4
              \<longrightarrow> rewards = [-1, -1])"
proof -
  from assms obtain p x0 x1 c0 c1 w' where p: "positions self = Some p"
    and s: "step self h w =
       Inr ((fresh h, step_rewards 4 (move 5 c0 x0) (move 5 c1 x1),
             move 5 c0 x0 = 4 \<or> move 5 c1 x1 = 4,
             build_info (agent_policies self) [move 5 c0 x0, move 5 c1 x1]),
            h\<lparr>cell := (cell h)(p := [move 5 c0 x0, move 5 c1 x1],
                                 fresh h := [move 5 c0 x0, move 5 c1 x1]),
              fresh := Suc (fresh h)\<rparr>, w')"
    by (rule step_env_ok)
  show ?thesis
    unfolding s by (simp add: pos_list_after_step[OF p] step_rewards_def)
qed

theorem collision_penalty_witness:
  "env_ok (env_at [agent_main, agent_competitive] :: unit TwoAgentEnv) (heap_at [0, 2]) \<and>
   (\<exists>c rewards done info h' w'.
      step (env_at [agent_main, agent_competitive]) (heap_at [0, 2]) () =
        Inr ((c, rewards, done, info), h', w') \<and>
      pos_list (env_at [agent_main, agent_competitive] :: unit TwoAgentEnv) h' = [1, 1] \<and>
      rewards = [-1, -1])"
proof -
  let ?E = "env_at [agent_main, agent_competitive] :: unit TwoAgentEnv"
  have ok: "env_ok ?E (heap_at [0, 2])" by (rule env_ok_env_at)
  from collision_penalty[OF ok, of "()"] obtain c rewards don info h' w' where
    s: "step ?E (heap_at [0, 2]) () = Inr ((c, rewards, don, info), h', w')"
    and i: "pos_list ?E h' ! 0 = pos_list ?E h' ! 1 \<and> pos_list ?E h' ! 0 \<noteq> 4
              \<longrightarrow> rewards = [-1, -1]"
    by blast
  have "pos_list ?E h' = [1, 1]"
    using s unfolding step_env_at[OF main_moves competitive_moves]
    by (auto simp: pos_list_def env_at_def move_def)
  with s i ok show ?thesis by auto
qed

text \<open>
  C2: in every call of step on an environment in order, each agent whose position
  after the movement is the goal 4 has 1 added to the reward the collision test left
  it, which makes its reward exactly 1, and done is returned true; an agent elsewhere
  keeps the reward of the collision test; done is true exactly when at least one of
  the two agents is at the goal.
\<close>

theorem goal_reward:
  assumes "env_ok self h"
  shows "\<exists>c rewards done info h' w' p base.
           step self h w = Inr ((c, rewards, done, info), h', w') \<and>
           cell h' c = pos_list self h' \<and>
           positions self = Some p \<and>
           collision_rewards (goal self) p h' [0, 0] = Inr base \<and>
           (pos_list self h' ! 0 = 4 \<longrightarrow> rewards ! 0 = base ! 0 + 1 \<and> rewards ! 0 = 1 \<and> done) \<and>
           (pos_list self h' ! 1 = 4 \<longrightarrow> rewards ! 1 = base ! 1 + 1 \<and> rewards ! 1 = 1 \<and> done) \<and>
           (pos_list self h' ! 0 \<noteq> 4 \<longrightarrow> rewards ! 0 = base ! 0) \<and>
           (pos_list self h' ! 1 \<noteq> 4 \<longrightarrow> rewards ! 1 = base ! 1) \<and>
           (done \<longleftrightarrow> pos_list self h' ! 0 = 4 \<or> pos_list self h' ! 1 = 4)"
proof -
  from assms obtain p x0 x1 c0 c1 w' where p: "positions self = Some p"
    and s: "step self h w =
       Inr ((fresh h, step_rewards 4 (move 5 c0 x0) (move 5 c1 x1),
             move 5 c0 x0 = 4 \<or> move 5 c1 x1 = 4,
             build_info (agent_policies self) [move 5 c0 x0, move 5 c1 x1]),
            h\<lparr>cell := (cell h)(p := [move 5 c0 x0, move 5 c1 x1],
                                 fresh h := [move 5 c0 x0, move 5 c1 x1]),
              fresh := Suc (fresh h)\<rparr>, w')"
    by (rule step_env_ok)
  from assms have g: "goal self = 4"
    by (simp add: env_ok_def env_consts_ok_def)
  let ?y0 = "move 5 c0 x0" and ?y1 = "move 5 c1 x1"
  let ?h' = "h\<lparr>cell := (cell h)(p := [?y0, ?y1], fresh h := [?y0, ?y1]),
                fresh := Suc (fresh h)\<rparr>"
  have c: "cell ?h' p = [?y0, ?y1]" by simp
  have b: "collision_rewards (goal self) p ?h' [0, 0] =
             Inr (if ?y0 = ?y1 \<and> ?y0 \<noteq> 4 then [-1, -1] else [0, 0])"
    unfolding g by (rule collision_rewards_two[OF c])
  show ?thesis
    unfolding s
    apply (intro exI conjI)
            apply (rule refl)
           apply (simp add: pos_list_after_step[OF p])
          apply (rule p)
         apply (rule b)
        apply (simp_all add: pos_list_after_step[OF p] step_rewards_def)
    done
qed

theorem goal_reward_witness:
  "env_ok (env_at [agent_main, agent_competitive] :: unit TwoAgentEnv) (heap_at [3, 0]) \<and>
   (\<exists>c rewards done info h' w'.
      step (env_at [agent_main, agent_competitive]) (heap_at [3, 0]) () =
        Inr ((c, rewards, done, info), h', w') \<and>
      pos_list (env_at [agent_main, agent_competitive] :: unit TwoAgentEnv) h' = [4, 0] \<and>
      rewards = [1, 0] \<and> done)"
proof -
  let ?E = "env_at [agent_main, agent_competitive] :: unit TwoAgentEnv"
  have ok: "env_ok ?E (heap_at [3, 0])" by (rule env_ok_env_at)
  from goal_reward[OF ok, of "()"] obtain c rewards don info h' w' p base where
    s: "step ?E (heap_at [3, 0]) () = Inr ((c, rewards, don, info), h', w')"
    and p: "positions ?E = Some p"
    and b: "collision_rewards (goal ?E) p h' [0, 0] = Inr base"
    and i0: "pos_list ?E h' ! 0 = 4 \<longrightarrow> rewards ! 0 = base ! 0 + 1 \<and> rewards ! 0 = 1 \<and> don"
    and i1: "pos_list ?E h' ! 1 \<noteq> 4 \<longrightarrow> rewards ! 1 = base ! 1"
    by blast
  have e: "pos_list ?E h' = [4, 0]" "length rewards = 2" "p = 0"
    using s p unfolding step_env_at[OF main_moves competitive_moves]
    by (auto simp: pos_list_def env_at_def move_def step_rewards_def)
  have "base = [0, 0]"
    using b e s unfolding step_env_at[OF main_moves competitive_moves]
    by (auto simp: collision_rewards_def get_item_def pos_list_def env_at_def)
  with i0 i1 e have "rewards ! 0 = 1" "rewards ! 1 = 0" "don" by simp_all
  with e(2) have "rewards = [1, 0]"
    by (cases rewards; cases "tl rewards") auto
  with s e ok \<open>don\<close> show ?thesis by auto
qed

text \<open>
  C9: in every result of step on an environment in order, if done is true then no
  reward is \<open>-1\<close>: both rewards are 0 or 1, and the two agents do not share a
  position off the goal.
\<close>

theorem done_excludes_collision:
  assumes "env_ok self h"
  shows "\<exists>c rewards done info h' w'.
           step self h w = Inr ((c, rewards, done, info), h', w') \<and>
           (done \<longrightarrow>
              rewards ! 0 \<noteq> -1 \<and> rewards ! 1 \<noteq> -1 \<and>
              length rewards = 2 \<and> list_all (\<lambda>r. r = 0 \<or> r = 1) rewards \<and>
              \<not> (pos_list self h' ! 0 = pos_list self h' ! 1 \<and> pos_list self h' ! 0 \<noteq> 4))"
proof -
  from assms obtain p x0 x1 c0 c1 w' where p: "positions self = Some p"
    and s: "step self h w =
       Inr ((fresh h, step_rewards 4 (move 5 c0 x0) (move 5 c1 x1),
             move 5 c0 x0 = 4 \<or> move 5 c1 x1 = 4,
             build_info (agent_policies self) [move 5 c0 x0, move 5 c1 x1]),
            h\<lparr>cell := (cell h)(p := [move 5 c0 x0, move 5 c1 x1],
                                 fresh h := [move 5 c0 x0, move 5 c1 x1]),
              fresh := Suc (fresh h)\<rparr>, w')"
    by (rule step_env_ok)
  show ?thesis
    unfolding s by (auto simp: pos_list_after_step[OF p] step_rewards_def)
qed

theorem done_excludes_collision_witness:
  "env_ok (env_at [agent_main, agent_ally] :: unit TwoAgentEnv) (heap_at [1, 3]) \<and>
   (\<exists>c rewards info h' w'.
      step (env_at [agent_main, agent_ally]) (heap_at [1, 3]) () =
        Inr ((c, rewards, True, info), h', w') \<and>
      rewards ! 0 \<noteq> -1 \<and> rewards ! 1 \<noteq> -1 \<and> list_all (\<lambda>r. r = 0 \<or> r = 1) rewards)"
proof -
  let ?E = "env_at [agent_main, agent_ally] :: unit TwoAgentEnv"
  have ok: "env_ok ?E (heap_at [1, 3])" by (rule env_ok_env_at)
  from done_excludes_collision[OF ok, of "()"] obtain c rewards don info h' w' where
    s: "step ?E (heap_at [1, 3]) () = Inr ((c, rewards, don, info), h', w')"
    and i: "don \<longrightarrow> rewards ! 0 \<noteq> -1 \<and> rewards ! 1 \<noteq> -1 \<and>
              length rewards = 2 \<and> list_all (\<lambda>r. r = 0 \<or> r = 1) rewards \<and>
              \<not> (pos_list ?E h' ! 0 = pos_list ?E h' ! 1 \<and> pos_list ?E h' ! 0 \<noteq> 4)"
    by blast
  have "don"
    using s unfolding step_env_at[OF main_moves ally_moves] by (auto simp: move_def)
  with s i ok show ?thesis by auto
qed

section \<open>Construction and reset\<close>

lemma reset_eq:
  "reset self h =
     (Suc (fresh h), self\<lparr>positions := Some (fresh h)\<rparr>,
      h\<lparr>cell := (cell h)(fresh h := [0, 2], Suc (fresh h) := [0, 2]),
        fresh := Suc (Suc (fresh h))\<rparr>)"
  by (simp add: reset_def new_list_def list_copy_def)

lemma env_ok_after_reset:
  assumes "env_consts_ok self"
  shows "env_ok (self\<lparr>positions := Some (fresh h)\<rparr>)
           (h\<lparr>cell := (cell h)(fresh h := [0, 2], Suc (fresh h) := [0, 2]),
              fresh := Suc (Suc (fresh h))\<rparr>)"
  using assms by (simp add: env_ok_def env_consts_ok_def)

text \<open>
  C6: for every environment and every store, reset binds the environment's positions
  to a list holding exactly \<open>[0, 2]\<close> and returns another list object with the same
  contents: whatever is written to the returned object, the environment's positions
  stay \<open>[0, 2]\<close>.
\<close>

theorem reset_positions:
  "\<exists>c p h'. reset self h = (c, self\<lparr>positions := Some p\<rparr>, h') \<and>
      pos_list (self\<lparr>positions := Some p\<rparr>) h' = [0, 2] \<and>
      cell h' c = [0, 2] \<and> c \<noteq> p \<and>
      (\<forall>xs. pos_list (self\<lparr>positions := Some p\<rparr>) (h'\<lparr>cell := (cell h')(c := xs)\<rparr>) = [0, 2])"
proof -
  let ?h' = "h\<lparr>cell := (cell h)(fresh h := [0, 2], Suc (fresh h) := [0, 2]),
               fresh := Suc (Suc (fresh h))\<rparr>"
  have "reset self h = (Suc (fresh h), self\<lparr>positions := Some (fresh h)\<rparr>, ?h')"
    by (rule reset_eq)
  moreover have "pos_list (self\<lparr>positions := Some (fresh h)\<rparr>) ?h' = [0, 2]"
    by (simp add: pos_list_def)
  moreover have "cell ?h' (Suc (fresh h)) = [0, 2]" by simp
  moreover have "Suc (fresh h) \<noteq> fresh h" by simp
  moreover have "\<forall>xs. pos_list (self\<lparr>positions := Some (fresh h)\<rparr>)
                     (?h'\<lparr>cell := (cell ?h')(Suc (fresh h) := xs)\<rparr>) = [0, 2]"
    by (simp add: pos_list_def)
  ultimately show ?thesis by blast
qed

text \<open>
  C7: constructing an environment from a list of agents whose length is not 2 raises
  the assertion error on the number of agents; from a list of 2 agents it succeeds.
\<close>

theorem init_agent_count:
  "(length policies \<noteq> 2 \<longrightarrow>
      TwoAgentEnv_init policies h =
        Inl (AssertionError ''This environment expects exactly 2 agents.'')) \<and>
   (length policies = 2 \<longrightarrow>
      (\<exists>self h'. TwoAgentEnv_init policies h = Inr (self, h') \<and>
                 agent_policies self = policies))"
  by (simp add: TwoAgentEnv_init_def reset_eq)

theorem init_agent_count_witness:
  "TwoAgentEnv_init [agent_main :: unit NPCPolicy] empty_heap =
     Inl (AssertionError ''This environment expects exactly 2 agents.'') \<and>
   TwoAgentEnv_init [agent_main, agent_ally, agent_competitive :: unit NPCPolicy] empty_heap =
     Inl (AssertionError ''This environment expects exactly 2 agents.'') \<and>
   (\<exists>self h'. TwoAgentEnv_init [agent_main, agent_competitive :: unit NPCPolicy] empty_heap =
                Inr (self, h') \<and>
              agent_policies self = [agent_main, agent_competitive])"
  using init_agent_count[of "[agent_main :: unit NPCPolicy]" empty_heap]
    init_agent_count[of "[agent_main, agent_ally, agent_competitive :: unit NPCPolicy]" empty_heap]
    init_agent_count[of "[agent_main, agent_competitive :: unit NPCPolicy]" empty_heap]
  by simp

text \<open>
  C10: the constructor calls reset on the object it has filled in. After a
  construction from two agents the positions are \<open>[0, 2]\<close> with no further call of
  reset, and step returns; on the object as it is before that call of reset, step
  raises, since the positions are not bound.
\<close>

theorem init_calls_reset:
  assumes "length policies = 2"
  shows "\<exists>c self h'.
           reset \<lparr>num_positions = 5, goal = 4, num_actions = 2, agent_policies = policies,
                  positions = None\<rparr> h = (c, self, h') \<and>
           TwoAgentEnv_init policies h = Inr (self, h') \<and>
           pos_list self h' = [0, 2] \<and>
           env_ok self h' \<and>
           (\<forall>w. \<exists>r h'' w'. step self h' w = Inr (r, h'', w')) \<and>
           (\<forall>w. step \<lparr>num_positions = 5, goal = 4, num_actions = 2, agent_policies = policies,
                       positions = None\<rparr> h w = Inl (AttributeError ''positions''))"
proof -
  let ?bare = "\<lparr>num_positions = 5, goal = 4, num_actions = 2, agent_policies = policies,
                positions = None\<rparr>"
  let ?self = "?bare\<lparr>positions := Some (fresh h)\<rparr>"
  let ?h' = "h\<lparr>cell := (cell h)(fresh h := [0, 2], Suc (fresh h) := [0, 2]),
               fresh := Suc (Suc (fresh h))\<rparr>"
  have r: "reset ?bare h = (Suc (fresh h), ?self, ?h')" by (rule reset_eq)
  have i: "TwoAgentEnv_init policies h = Inr (?self, ?h')"
    using assms by (simp add: TwoAgentEnv_init_def reset_eq)
  have c: "env_consts_ok ?bare" using assms by (simp add: env_consts_ok_def)
  have ok: "env_ok ?self ?h'" by (rule env_ok_after_reset[OF c])
  have p: "pos_list ?self ?h' = [0, 2]" by (simp add: pos_list_def)
  have t: "\<exists>r h'' w'. step ?self ?h' w = Inr (r, h'', w')" for w
    using ok by (rule step_env_ok[where w = w]) blast
  have b: "step ?bare h w = Inl (AttributeError ''positions'')" for w
    by (simp add: step_def)
  from r i p ok t b show ?thesis by blast
qed

theorem init_calls_reset_witness:
  "length [agent_main, agent_competitive :: unit NPCPolicy] = 2 \<and>
   (\<exists>self h'. TwoAgentEnv_init [agent_main, agent_competitive :: unit NPCPolicy] empty_heap =
                Inr (self, h') \<and>
              pos_list self h' = [0, 2] \<and>
              (\<exists>r h'' w'. step self h' () = Inr (r, h'', w')))"
proof -
  have l: "length [agent_main, agent_competitive :: unit NPCPolicy] = 2" by simp
  from init_calls_reset[OF l, of empty_heap] l show ?thesis by blast
qed

section \<open>The driver's first match\<close>

lemma build_info_main_vs_competitive:
  "build_info [agent_main, agent_competitive] [x0, x1] =
     [info_dict ''Main'' ''main_agent'' x0, info_dict ''Competitive'' ''competitor_npc'' x1]"
  by (simp add: build_info_def agent_main_def agent_competitive_def NPCPolicy_init_def)

lemma step_main_vs_competitive:
  assumes "positions self = Some p" "agent_policies self = [agent_main, agent_competitive]"
    "num_positions self = 5" "goal self = 4" "cell g p = [x0, x1]"
  shows "\<exists>g'. step self g w =
           Inr ((fresh g, step_rewards 4 (move 5 1 x0) (move 5 0 x1),
                 move 5 1 x0 = 4 \<or> move 5 0 x1 = 4,
                 build_info (agent_policies self) [move 5 1 x0, move 5 0 x1]), g', w) \<and>
           cell g' p = [move 5 1 x0, move 5 0 x1] \<and>
           cell g' (fresh g) = [move 5 1 x0, move 5 0 x1]"
  using step_two[OF assms(1,2,5) main_moves competitive_moves refl refl, of w]
  by (simp add: assms(2,3,4))

lemma episode_done:
  assumes "step env h w = Inr ((state, rewards, True, info), h1, w1)"
  shows "episode (Suc n) env h w = Inr ([(cell h1 state, rewards, True, info)], h1, w1)"
  using assms by simp

lemma episode_more:
  assumes "step env h w = Inr ((state, rewards, False, info), h1, w1)"
    and "episode n env h1 w1 = Inr (entries, h2, w2)"
  shows "episode (Suc n) env h w = Inr ((cell h1 state, rewards, False, info) # entries, h2, w2)"
  using assms by simp

text \<open>
  C5: the driver's first match. The environment is constructed from the main agent,
  which always decides 1, and the competitor, which always decides 0, and reset, which
  puts the positions at \<open>[0, 2]\<close>. The loop of at most 10 steps ends after four steps,
  with states, rewards and done flags \<open>[1, 1]\<close>, \<open>[-1, -1]\<close>, false; \<open>[2, 0]\<close>,
  \<open>[0, 0]\<close>, false; \<open>[3, 0]\<close>, \<open>[0, 0]\<close>, false; \<open>[4, 0]\<close>, \<open>[1, 0]\<close>, true.
\<close>

theorem scenario_main_vs_competitive:
  "\<exists>self0 h0 c self h1 h'.
     TwoAgentEnv_init [agent_main, agent_competitive] h = Inr (self0, h0) \<and>
     reset self0 h0 = (c, self, h1) \<and>
     pos_list self h1 = [0, 2] \<and>
     episode 10 self h1 w =
       Inr ([([1, 1], [-1, -1], False,
              [info_dict ''Main'' ''main_agent'' 1,
               info_dict ''Competitive'' ''competitor_npc'' 1]),
             ([2, 0], [0, 0], False,
              [info_dict ''Main'' ''main_agent'' 2,
               info_dict ''Competitive'' ''competitor_npc'' 0]),
             ([3, 0], [0, 0], False,
              [info_dict ''Main'' ''main_agent'' 3,
               info_dict ''Competitive'' ''competitor_npc'' 0]),
             ([4, 0], [1, 0], True,
              [info_dict ''Main'' ''main_agent'' 4,
               info_dict ''Competitive'' ''competitor_npc'' 0])],
            h', w) \<and>
     run_match [agent_main, agent_competitive] h w = episode 10 self h1 w"
proof -
  let ?ps = "[agent_main, agent_competitive] :: 'a NPCPolicy list"
  let ?i1 = "build_info ?ps [1, 1]" and ?i2 = "build_info ?ps [2, 0]"
  let ?i3 = "build_info ?ps [3, 0]" and ?i4 = "build_info ?ps [4, 0]"
  let ?made = "\<lparr>num_positions = 5, goal = 4, num_actions = 2, agent_policies = ?ps,
                positions = Some (fresh h)\<rparr>"
  let ?g = "h\<lparr>cell := (cell h)(fresh h := [0, 2], Suc (fresh h) := [0, 2]),
               fresh := Suc (Suc (fresh h))\<rparr>"
  let ?p = "Suc (Suc (fresh h))"
  let ?env = "\<lparr>num_positions = 5, goal = 4, num_actions = 2, agent_policies = ?ps,
               positions = Some ?p\<rparr>"
  let ?start = "?g\<lparr>cell := (cell ?g)(?p := [0, 2], Suc ?p := [0, 2]), fresh := Suc (Suc ?p)\<rparr>"
  have i: "TwoAgentEnv_init ?ps h = Inr (?made, ?g)"
    by (simp add: TwoAgentEnv_init_def reset_eq)
  have rs: "reset ?made ?g = (Suc ?p, ?env, ?start)"
    unfolding reset_eq by simp
  have e: "positions ?env = Some ?p" "agent_policies ?env = ?ps"
    "num_positions ?env = 5" "goal ?env = 4"
    by simp_all
  have p0: "pos_list ?env ?start = [0, 2]" by (simp add: pos_list_def)
  have c0: "cell ?start ?p = [0, 2]" by simp
  from step_main_vs_competitive[OF e c0, of w] obtain g1 where
    s1: "step ?env ?start w = Inr ((fresh ?start, [-1, -1], False, ?i1), g1, w)"
    and c1: "cell g1 ?p = [1, 1]" and r1: "cell g1 (fresh ?start) = [1, 1]"
    by (auto simp: move_def step_rewards_def)
  from step_main_vs_competitive[OF e c1, of w] obtain g2 where
    s2: "step ?env g1 w = Inr ((fresh g1, [0, 0], False, ?i2), g2, w)"
    and c2: "cell g2 ?p = [2, 0]" and r2: "cell g2 (fresh g1) = [2, 0]"
    by (auto simp: move_def step_rewards_def)
  from step_main_vs_competitive[OF e c2, of w] obtain g3 where
    s3: "step ?env g2 w = Inr ((fresh g2, [0, 0], False, ?i3), g3, w)"
    and c3: "cell g3 ?p = [3, 0]" and r3: "cell g3 (fresh g2) = [3, 0]"
    by (auto simp: move_def step_rewards_def)
  from step_main_vs_competitive[OF e c3, of w] obtain g4 where
    s4: "step ?env g3 w = Inr ((fresh g3, [1, 0], True, ?i4), g4, w)"
    and c4: "cell g4 ?p = [4, 0]" and r4: "cell g4 (fresh g3) = [4, 0]"
    by (auto simp: move_def step_rewards_def)
  have t4: "episode (Suc 6) ?env g3 w = Inr ([([4, 0], [1, 0], True, ?i4)], g4, w)"
    by (simp only: episode_done[OF s4] r4)
  have t3: "episode (Suc (Suc 6)) ?env g2 w =
      Inr ([([3, 0], [0, 0], False, ?i3), ([4, 0], [1, 0], True, ?i4)], g4, w)"
    by (simp only: episode_more[OF s3 t4] r3)
  have t2: "episode (Suc (Suc (Suc 6))) ?env g1 w =
      Inr ([([2, 0], [0, 0], False, ?i2), ([3, 0], [0, 0], False, ?i3),
            ([4, 0], [1, 0], True, ?i4)], g4, w)"
    by (simp only: episode_more[OF s2 t3] r2)
  have ten: "(10::nat) = Suc (Suc (Suc (Suc 6)))" by simp
  have t1: "episode 10 ?env ?start w =
      Inr ([([1, 1], [-1, -1], False, ?i1), ([2, 0], [0, 0], False, ?i2),
            ([3, 0], [0, 0], False, ?i3), ([4, 0], [1, 0], True, ?i4)], g4, w)"
    by (simp only: ten episode_more[OF s1 t2] r1)
  have m: "run_match ?ps h w = episode 10 ?env ?start w"
    by (simp only: run_match_def i rs sum.case prod.case Let_def)
  from i rs p0 t1 m show ?thesis
    unfolding build_info_main_vs_competitive by blast
qed

section \<open>The decisions are taken before any move\<close>



lemma view_of_lift_env: "view_of (lift_env self) ps = view_of self ps"
  by (simp add: view_of_def lift_env_def lift_policy_def comp_def)

lemma build_info_lift: "build_info (map lift_policy policies) ps = build_info policies ps"
  by (simp add: build_info_def zip_map1 lift_policy_def case_prod_unfold)

lemma choose_actions_live_lift:
  "choose_actions_live (lift_env self) p i (map lift_policy policies) h u =
     (case choose_actions (view_of self (cell h p)) (zip policies (drop i (cell h p))) u of
        (actions, u') \<Rightarrow> (actions, h, u'))"
proof (induction policies arbitrary: i u)
  case Nil
  then show ?case by simp
next
  case (Cons a policies)
  show ?case
  proof (cases "i < length (cell h p)")
    case True
    then have d: "drop i (cell h p) = cell h p ! i # drop (Suc i) (cell h p)"
      by (simp add: Cons_nth_drop_Suc)
    obtain c u1 where f: "policy_func a (view_of self (cell h p)) (cell h p ! i) u = (c, u1)"
      by (cases "policy_func a (view_of self (cell h p)) (cell h p ! i) u")
    obtain cs u2 where r: "choose_actions (view_of self (cell h p))
        (zip policies (drop (Suc i) (cell h p))) u1 = (cs, u2)"
      by (cases "choose_actions (view_of self (cell h p))
        (zip policies (drop (Suc i) (cell h p))) u1")
    have l: "policy_func (lift_policy a) (view_of (lift_env self) (cell h p)) (cell h p ! i)
               (h, u) = (c, (h, u1))"
      by (simp add: lift_policy_def view_of_lift_env f)
    show ?thesis
      using True by (simp add: l Cons.IH d act_def f r)
  next
    case False
    then show ?thesis by simp
  qed
qed

text \<open>
  On decision functions that only read, the step with the live store is the step
  defined first.
\<close>

lemma step_live_lift: "step_live (lift_env self) h u = step self h u"
proof (cases "positions self")
  case None
  then show ?thesis by (simp add: step_live_def step_def lift_env_def)
next
  case (Some p)
  obtain cs u' where q: "query_actions self p h u = (cs, u')"
    by (cases "query_actions self p h u")
  then have ql: "query_actions_live (lift_env self) p h u = (cs, h, u')"
    by (simp add: query_actions_live_def query_actions_def lift_env_def
        choose_actions_live_lift[unfolded lift_env_def])
  have e: "positions (lift_env self) = Some p" "num_positions (lift_env self) = num_positions self"
    "goal (lift_env self) = goal self"
    "agent_policies (lift_env self) = map lift_policy (agent_policies self)"
    by (simp_all add: lift_env_def Some)
  show ?thesis
    unfolding step_live_def step_def e Some option.case q ql prod.case build_info_lift
    by simp
qed






section \<open>Movement and its bounds\<close>

text \<open>One step of an environment in order, with the decisions that lead to it.\<close>

lemma step_env_ok_decisions:
  assumes "env_ok self h"
  obtains p a0 a1 x0 x1 c0 w1 c1 w2 r h' where
    "positions self = Some p" "agent_policies self = [a0, a1]"
    "pos_list self h = [x0, x1]"
    "policy_func a0 (view_of self [x0, x1]) x0 w = (c0, w1)"
    "policy_func a1 (view_of self [x0, x1]) x1 w1 = (c1, w2)"
    "query_actions self p h w = ([c0, c1], w2)"
    "step self h w = Inr (r, h', w2)"
    "pos_list self h' = [move 5 c0 x0, move 5 c1 x1]"
    "env_ok self h'"
proof -
  from assms obtain p a0 a1 x0 x1 where e: "positions self = Some p"
    "agent_policies self = [a0, a1]" "cell h p = [x0, x1]" "num_positions self = 5"
    "goal self = 4" "p < fresh h"
    by (rule env_okE)
  obtain c0 w1 where f0: "policy_func a0 (view_of self [x0, x1]) x0 w = (c0, w1)"
    by (cases "policy_func a0 (view_of self [x0, x1]) x0 w")
  obtain c1 w2 where f1: "policy_func a1 (view_of self [x0, x1]) x1 w1 = (c1, w2)"
    by (cases "policy_func a1 (view_of self [x0, x1]) x1 w1")
  let ?ys = "[move 5 c0 x0, move 5 c1 x1]"
  let ?h' = "h\<lparr>cell := (cell h)(p := ?ys, fresh h := ?ys), fresh := Suc (fresh h)\<rparr>"
  have pl: "pos_list self h = [x0, x1]" by (simp add: pos_list_def e(1,3))
  have q: "query_actions self p h w = ([c0, c1], w2)"
    by (rule query_actions_two[OF e(2,3) f0 f1])
  have s: "step self h w =
       Inr ((fresh h, step_rewards 4 (move 5 c0 x0) (move 5 c1 x1),
             move 5 c0 x0 = 4 \<or> move 5 c1 x1 = 4, build_info [a0, a1] ?ys), ?h', w2)"
    using step_two[OF e(1,2,3) f0 f1 refl refl] by (simp only: e(4,5))
  have pl': "pos_list self ?h' = ?ys" by (rule pos_list_after_step[OF e(1)])
  have ok: "env_ok self ?h'" by (rule env_ok_after_step[OF assms e(1)])
  show thesis by (rule that[OF e(1,2) pl f0 f1 q s pl' ok])
qed

lemma in_range_two: "pos_list self h = [x0, x1] \<Longrightarrow>
    in_range self h \<longleftrightarrow> (0 \<le> x0 \<and> x0 \<le> 4) \<and> (0 \<le> x1 \<and> x1 \<le> 4)"
  by (simp add: in_range_def)

lemma step_keeps_range:
  assumes "env_ok self h" "in_range self h"
  shows "\<exists>r h' w'. step self h w = Inr (r, h', w') \<and> env_ok self h' \<and> in_range self h'"
proof -
  from assms(1) obtain x0 x1 c0 c1 w2 r h' where pl: "pos_list self h = [x0, x1]"
    and s: "step self h w = Inr (r, h', w2)"
    and pl': "pos_list self h' = [move 5 c0 x0, move 5 c1 x1]" and ok: "env_ok self h'"
    by (rule step_env_ok_decisions)
  from assms(2) have "(0 \<le> x0 \<and> x0 \<le> 4) \<and> (0 \<le> x1 \<and> x1 \<le> 4)"
    by (simp add: in_range_two[OF pl])
  then have "in_range self h'"
    by (simp add: in_range_two[OF pl'] move_in_range)
  with s ok show ?thesis by blast
qed

lemma steps_keep_range:
  assumes "env_ok self h" "in_range self h"
  shows "\<exists>h' w'. steps n self h w = Inr (h', w') \<and> env_ok self h' \<and> in_range self h'"
  using assms
proof (induction n arbitrary: h w)
  case 0
  then show ?case by simp
next
  case (Suc n)
  from step_keeps_range[OF Suc.prems, of w] obtain r h1 w1 where
    s: "step self h w = Inr (r, h1, w1)" and ok: "env_ok self h1" and ir: "in_range self h1"
    by blast
  from Suc.IH[OF ok ir, of w1] show ?case by (simp add: s)
qed

text \<open>
  Every environment a program arrives at is in order, with its positions between 0 and
  4: the hypothesis \<open>env_ok\<close> of the theorems below leaves out no call of step that
  can happen.
\<close>

lemma reachable_env_ok:
  assumes "reachable self h"
  shows "env_ok self h \<and> in_range self h"
  using assms
proof (induction rule: reachable.induct)
  case (constructed policies h self h')
  then have l: "length policies = 2"
    and e: "self = \<lparr>num_positions = 5, goal = 4, num_actions = 2, agent_policies = policies,
                    positions = Some (fresh h)\<rparr>"
      "h' = h\<lparr>cell := (cell h)(fresh h := [0, 2], Suc (fresh h) := [0, 2]),
               fresh := Suc (Suc (fresh h))\<rparr>"
    by (auto simp: TwoAgentEnv_init_def reset_eq split: if_splits)
  from l show ?case
    unfolding e by (simp add: env_ok_def env_consts_ok_def in_range_def pos_list_def)
next
  case (stepped self h w r h' w')
  from step_keeps_range[of self h w] stepped.IH stepped.hyps(2) show ?case by auto
next
  case (reset_again self h c self' h')
  from reset_again.IH have c: "env_consts_ok self" by (simp add: env_ok_def)
  from reset_again.hyps(2) have e: "self' = self\<lparr>positions := Some (fresh h)\<rparr>"
    "h' = h\<lparr>cell := (cell h)(fresh h := [0, 2], Suc (fresh h) := [0, 2]),
             fresh := Suc (Suc (fresh h))\<rparr>"
    by (auto simp: reset_eq)
  show ?case
    unfolding e using env_ok_after_reset[OF c, of h]
    by (simp add: in_range_def pos_list_def)
next
  case (elsewhere self h p h')
  then show ?case
    by (simp add: env_ok_def in_range_def pos_list_def)
qed

text \<open>An agent that always decides \<open>c\<close> and stands on a fixed point of \<open>move 5 c\<close> stays.\<close>

lemma step_keeps_fixed:
  assumes "env_ok self h" "i < 2" "pos_list self h ! i = x" "move 5 c x = x"
    and "\<forall>v s u. fst (policy_func (agent_policies self ! i) v s u) = c"
  shows "\<exists>r h' w'. step self h w = Inr (r, h', w') \<and> env_ok self h' \<and> pos_list self h' ! i = x"
proof -
  from assms(1) obtain a0 a1 x0 x1 c0 w1 c1 w2 r h' where a: "agent_policies self = [a0, a1]"
    and pl: "pos_list self h = [x0, x1]"
    and f0: "policy_func a0 (view_of self [x0, x1]) x0 w = (c0, w1)"
    and f1: "policy_func a1 (view_of self [x0, x1]) x1 w1 = (c1, w2)"
    and s: "step self h w = Inr (r, h', w2)"
    and pl': "pos_list self h' = [move 5 c0 x0, move 5 c1 x1]" and ok: "env_ok self h'"
    by (rule step_env_ok_decisions)
  from assms(2) consider "i = 0" | "i = 1" by linarith
  then have "pos_list self h' ! i = x"
  proof cases
    case 1
    from assms(5) have "fst (policy_func a0 (view_of self [x0, x1]) x0 w) = c"
      by (simp add: a 1)
    with f0 have "c0 = c" by simp
    with assms(3,4) show ?thesis by (simp add: 1 pl pl')
  next
    case 2
    from assms(5) have "fst (policy_func a1 (view_of self [x0, x1]) x1 w1) = c"
      by (simp add: a 2)
    with f1 have "c1 = c" by simp
    with assms(3,4) show ?thesis by (simp add: 2 pl pl')
  qed
  with s ok show ?thesis by blast
qed

lemma steps_keep_fixed:
  assumes "env_ok self h" "i < 2" "pos_list self h ! i = x" "move 5 c x = x"
    and "\<forall>v s u. fst (policy_func (agent_policies self ! i) v s u) = c"
  shows "\<exists>h' w'. steps n self h w = Inr (h', w') \<and> env_ok self h' \<and> pos_list self h' ! i = x"
  using assms(1,3)
proof (induction n arbitrary: h w)
  case 0
  then show ?case by simp
next
  case (Suc n)
  from step_keeps_fixed[OF Suc.prems(1) assms(2) Suc.prems(2) assms(4,5), of w]
  obtain r h1 w1 where s: "step self h w = Inr (r, h1, w1)" and ok: "env_ok self h1"
    and fx: "pos_list self h1 ! i = x"
    by blast
  from Suc.IH[OF ok fx, of w1] show ?case by (simp add: s)
qed

lemma move_left: "move 5 0 x = max 0 (x - 1)"
  by (simp add: move_def)

lemma move_right: "move 5 1 x = min 4 (x + 1)"
  by (simp add: move_def)


lemma view_of_binary:
  assumes "agent_policies self = [a0, a1]"
  shows "view_of (self\<lparr>agent_policies := [binary_policy a0, binary_policy a1]\<rparr>) ps =
           view_of self ps"
  using assms by (simp add: view_of_def binary_policy_def)

lemma build_info_binary:
  "build_info [binary_policy a0, binary_policy a1] ps = build_info [a0, a1] ps"
  by (cases ps; cases "tl ps") (auto simp: build_info_def binary_policy_def)

lemma policy_func_binary:
  assumes "policy_func a v x w = (c, w')"
  shows "policy_func (binary_policy a) v x w = ((if c = 0 then 0 else 1), w')"
  using assms by (simp add: binary_policy_def)

lemma move_binary: "move np (if c = 0 then 0 else 1) x = move np c x"
  by (simp add: move_def)

lemma step_binary:
  assumes "env_ok self h"
  shows "step (self\<lparr>agent_policies := map binary_policy (agent_policies self)\<rparr>) h w =
           step self h w"
proof -
  from assms obtain p a0 a1 x0 x1 where e: "positions self = Some p"
    "agent_policies self = [a0, a1]" "cell h p = [x0, x1]"
    by (rule env_okE)
  obtain c0 w1 where f0: "policy_func a0 (view_of self [x0, x1]) x0 w = (c0, w1)"
    by (cases "policy_func a0 (view_of self [x0, x1]) x0 w")
  obtain c1 w2 where f1: "policy_func a1 (view_of self [x0, x1]) x1 w1 = (c1, w2)"
    by (cases "policy_func a1 (view_of self [x0, x1]) x1 w1")
  let ?self = "self\<lparr>agent_policies := [binary_policy a0, binary_policy a1]\<rparr>"
  have e': "positions ?self = Some p"
    "agent_policies ?self = [binary_policy a0, binary_policy a1]"
    by (simp_all add: e(1))
  have n: "num_positions ?self = num_positions self" "goal ?self = goal self"
    by simp_all
  have k0: "policy_func (binary_policy a0) (view_of ?self [x0, x1]) x0 w =
              ((if c0 = 0 then 0 else 1), w1)"
    unfolding view_of_binary[OF e(2)] by (rule policy_func_binary[OF f0])
  have k1: "policy_func (binary_policy a1) (view_of ?self [x0, x1]) x1 w1 =
              ((if c1 = 0 then 0 else 1), w2)"
    unfolding view_of_binary[OF e(2)] by (rule policy_func_binary[OF f1])
  have "step ?self h w = step self h w"
    unfolding step_two[OF e f0 f1 refl refl] step_two[OF e' e(3) k0 k1 refl refl]
      n move_binary build_info_binary
    by (rule refl)
  then show ?thesis by (simp add: e(2))
qed

text \<open>
  C3: with the constants of the constructor, action 0 takes a position \<open>x\<close> to
  \<open>max 0 (x - 1)\<close> and action 1 takes it to \<open>min 4 (x + 1)\<close>, and a step of an
  environment in order replaces the positions by the positions moved by the chosen
  actions. Hence, from reset on, after any number of steps and whatever the decision
  functions answer (they may read any outside source, so any sequence of actions
  occurs), the positions are between 0 and 4. An agent at 0 that always decides 0 is
  at 0 after any number of steps, and an agent at 4 that always decides 1 is at 4.
\<close>

theorem boundary_clamp:
  assumes "env_consts_ok self"
  shows "move (num_positions self) 0 x = max 0 (x - 1) \<and>
         move (num_positions self) 1 x = min 4 (x + 1) \<and>
         (env_ok self h \<longrightarrow>
            (\<exists>p acts r h' w'.
               positions self = Some p \<and> query_actions self p h w = (acts, w') \<and>
               step self h w = Inr (r, h', w') \<and>
               pos_list self h' = map2 (move (num_positions self)) acts (pos_list self h))) \<and>
         (\<exists>c self0 h0.
            reset self h = (c, self0, h0) \<and> in_range self0 h0 \<and>
            (\<forall>n. \<exists>h' w'. steps n self0 h0 w = Inr (h', w') \<and> in_range self0 h')) \<and>
         (env_ok self h \<and> i < 2 \<and> pos_list self h ! i = 0 \<and>
          (\<forall>v s u. fst (policy_func (agent_policies self ! i) v s u) = 0) \<longrightarrow>
            (\<exists>h' w'. steps n self h w = Inr (h', w') \<and> pos_list self h' ! i = 0)) \<and>
         (env_ok self h \<and> i < 2 \<and> pos_list self h ! i = 4 \<and>
          (\<forall>v s u. fst (policy_func (agent_policies self ! i) v s u) = 1) \<longrightarrow>
            (\<exists>h' w'. steps n self h w = Inr (h', w') \<and> pos_list self h' ! i = 4))"
proof -
  from assms have np: "num_positions self = 5" by (simp add: env_consts_ok_def)
  have m: "move (num_positions self) 0 x = max 0 (x - 1)"
    "move (num_positions self) 1 x = min 4 (x + 1)"
    unfolding np by (rule move_left, rule move_right)
  have st: "\<exists>p acts r h' w'.
               positions self = Some p \<and> query_actions self p h w = (acts, w') \<and>
               step self h w = Inr (r, h', w') \<and>
               pos_list self h' = map2 (move (num_positions self)) acts (pos_list self h)"
    if ok: "env_ok self h"
  proof -
    from ok obtain p x0 x1 c0 c1 w2 r h' where "positions self = Some p"
      "pos_list self h = [x0, x1]" "query_actions self p h w = ([c0, c1], w2)"
      "step self h w = Inr (r, h', w2)" "pos_list self h' = [move 5 c0 x0, move 5 c1 x1]"
      by (rule step_env_ok_decisions)
    then show ?thesis by (cases r) (simp add: np)
  qed
  let ?self0 = "self\<lparr>positions := Some (fresh h)\<rparr>"
  let ?h0 = "h\<lparr>cell := (cell h)(fresh h := [0, 2], Suc (fresh h) := [0, 2]),
               fresh := Suc (Suc (fresh h))\<rparr>"
  have ok0: "env_ok ?self0 ?h0" by (rule env_ok_after_reset[OF assms])
  have ir0: "in_range ?self0 ?h0" by (simp add: in_range_def pos_list_def)
  have "\<exists>h' w'. steps n ?self0 ?h0 w = Inr (h', w') \<and> in_range ?self0 h'" for n
    using steps_keep_range[OF ok0 ir0, of n w] by blast
  with ir0 have rs: "\<exists>c self0 h0.
            reset self h = (c, self0, h0) \<and> in_range self0 h0 \<and>
            (\<forall>n. \<exists>h' w'. steps n self0 h0 w = Inr (h', w') \<and> in_range self0 h')"
    unfolding reset_eq by blast
  have lo: "\<exists>h' w'. steps n self h w = Inr (h', w') \<and> pos_list self h' ! i = 0"
    if "env_ok self h" "i < 2" "pos_list self h ! i = 0"
      "\<forall>v s u. fst (policy_func (agent_policies self ! i) v s u) = 0"
    using steps_keep_fixed[OF that(1,2,3) _ that(4), of n w] by (auto simp: move_def)
  have hi: "\<exists>h' w'. steps n self h w = Inr (h', w') \<and> pos_list self h' ! i = 4"
    if "env_ok self h" "i < 2" "pos_list self h ! i = 4"
      "\<forall>v s u. fst (policy_func (agent_policies self ! i) v s u) = 1"
    using steps_keep_fixed[OF that(1,2,3) _ that(4), of n w] by (auto simp: move_def)
  from m st rs lo hi show ?thesis by blast
qed


theorem boundary_clamp_witness:
  "env_consts_ok (env_at [agent_competitive, agent_main] :: unit TwoAgentEnv) \<and>
   env_ok (env_at [agent_competitive, agent_main] :: unit TwoAgentEnv) (heap_at [0, 4]) \<and>
   pos_list (env_at [agent_competitive, agent_main] :: unit TwoAgentEnv) (heap_at [0, 4]) = [0, 4] \<and>
   (\<exists>h' w'. steps 3 (env_at [agent_competitive, agent_main]) (heap_at [0, 4]) () = Inr (h', w') \<and>
      pos_list (env_at [agent_competitive, agent_main] :: unit TwoAgentEnv) h' ! 0 = 0) \<and>
   (\<exists>h' w'. steps 3 (env_at [agent_competitive, agent_main]) (heap_at [0, 4]) () = Inr (h', w') \<and>
      pos_list (env_at [agent_competitive, agent_main] :: unit TwoAgentEnv) h' ! 1 = 4) \<and>
   (\<exists>c self0 h0.
      reset (env_at [agent_competitive, agent_main] :: unit TwoAgentEnv) (heap_at [0, 4]) =
        (c, self0, h0) \<and>
      (\<exists>h' w'. steps 3 self0 h0 () = Inr (h', w') \<and> in_range self0 h')) \<and>
   (\<exists>p acts r h' w'.
      query_actions (env_at [agent_competitive, agent_main]) p (heap_at [0, 4]) () = (acts, w') \<and>
      step (env_at [agent_competitive, agent_main]) (heap_at [0, 4]) () = Inr (r, h', w') \<and>
      pos_list (env_at [agent_competitive, agent_main] :: unit TwoAgentEnv) h' =
        map2 (move 5) acts [0, 4])"
proof -
  let ?E = "env_at [agent_competitive, agent_main] :: unit TwoAgentEnv"
  let ?H = "heap_at [0, 4]"
  have c: "env_consts_ok ?E" by (simp add: env_consts_ok_def env_at_def)
  have ok: "env_ok ?E ?H" by (rule env_ok_env_at)
  have pl: "pos_list ?E ?H = [0, 4]" by (simp add: pos_list_def env_at_def heap_at_def)
  have np: "num_positions ?E = 5" by (simp add: env_at_def)
  have a0: "\<forall>v s u. fst (policy_func (agent_policies ?E ! 0) v s u) = 0"
    by (simp add: env_at_def competitive_moves)
  have a1: "\<forall>v s u. fst (policy_func (agent_policies ?E ! 1) v s u) = 1"
    by (simp add: env_at_def main_moves)
  from boundary_clamp[OF c, of 0 ?H "()" 0 3] ok pl a0
  have lo: "\<exists>h' w'. steps 3 ?E ?H () = Inr (h', w') \<and> pos_list ?E h' ! 0 = 0"
    by simp
  from boundary_clamp[OF c, of 0 ?H "()" 1 3] ok pl a1
  have hi: "\<exists>h' w'. steps 3 ?E ?H () = Inr (h', w') \<and> pos_list ?E h' ! 1 = 4"
    by simp
  from boundary_clamp[OF c, of 0 ?H "()" 0 3]
  have rs: "\<exists>c self0 h0. reset ?E ?H = (c, self0, h0) \<and>
              (\<exists>h' w'. steps 3 self0 h0 () = Inr (h', w') \<and> in_range self0 h')"
    by blast
  from boundary_clamp[OF c, of 0 ?H "()" 0 3] ok
  have st: "\<exists>p acts r h' w'.
      query_actions ?E p ?H () = (acts, w') \<and> step ?E ?H () = Inr (r, h', w') \<and>
      pos_list ?E h' = map2 (move 5) acts [0, 4]"
    unfolding np pl by blast
  from c ok pl lo hi rs st show ?thesis by blast
qed

text \<open>
  C8: whatever integers the decision functions answer, step of an environment in order
  returns a result and raises nothing. An action other than 0 moves a position \<open>x\<close> to
  \<open>min 4 (x + 1)\<close>, as action 1 does: cutting every decision down to 0 or 1 (0 stays
  0, all else becomes 1) leaves the whole result of step as it is. Positions between
  0 and 4 stay there after any number of steps.
\<close>

theorem nonzero_action_is_right:
  assumes "env_ok self h"
  shows "(\<exists>r h' w'. step self h w = Inr (r, h', w')) \<and>
         step (self\<lparr>agent_policies := map binary_policy (agent_policies self)\<rparr>) h w =
           step self h w \<and>
         (c \<noteq> 0 \<longrightarrow> move (num_positions self) c x = min 4 (x + 1) \<and>
                    move (num_positions self) c x = move (num_positions self) 1 x) \<and>
         (in_range self h \<longrightarrow>
            (\<exists>h' w'. steps n self h w = Inr (h', w') \<and> in_range self h'))"
proof -
  from assms have np: "num_positions self = 5" by (simp add: env_ok_def env_consts_ok_def)
  have t: "\<exists>r h' w'. step self h w = Inr (r, h', w')"
    using assms by (rule step_env_ok_decisions[where w = w]) blast
  have b: "step (self\<lparr>agent_policies := map binary_policy (agent_policies self)\<rparr>) h w =
             step self h w"
    by (rule step_binary[OF assms])
  have m: "move (num_positions self) c x = min 4 (x + 1) \<and>
           move (num_positions self) c x = move (num_positions self) 1 x" if "c \<noteq> 0"
    using that by (simp add: np move_def)
  have r: "\<exists>h' w'. steps n self h w = Inr (h', w') \<and> in_range self h'" if "in_range self h"
    using steps_keep_range[OF assms that, of n w] by blast
  from t b m r show ?thesis by blast
qed

theorem nonzero_action_is_right_witness:
  "env_ok (env_at [agent_main\<lparr>policy_func := constant_policy 7\<rparr>,
                   agent_main\<lparr>policy_func := constant_policy (- 3)\<rparr>] :: unit TwoAgentEnv)
     (heap_at [0, 2]) \<and>
   in_range (env_at [agent_main\<lparr>policy_func := constant_policy 7\<rparr>,
                     agent_main\<lparr>policy_func := constant_policy (- 3)\<rparr>] :: unit TwoAgentEnv)
     (heap_at [0, 2]) \<and>
   (7::int) \<noteq> 0 \<and> move 5 7 0 = min 4 (0 + 1) \<and>
   (\<exists>r h' w'.
      step (env_at [agent_main\<lparr>policy_func := constant_policy 7\<rparr>,
                    agent_main\<lparr>policy_func := constant_policy (- 3)\<rparr>]) (heap_at [0, 2]) () =
        Inr (r, h', w') \<and>
      pos_list (env_at [agent_main\<lparr>policy_func := constant_policy 7\<rparr>,
                        agent_main\<lparr>policy_func := constant_policy (- 3)\<rparr>] :: unit TwoAgentEnv)
        h' = [1, 3]) \<and>
   (\<exists>h' w'.
      steps 3 (env_at [agent_main\<lparr>policy_func := constant_policy 7\<rparr>,
                       agent_main\<lparr>policy_func := constant_policy (- 3)\<rparr>]) (heap_at [0, 2]) () =
        Inr (h', w') \<and>
      in_range (env_at [agent_main\<lparr>policy_func := constant_policy 7\<rparr>,
                        agent_main\<lparr>policy_func := constant_policy (- 3)\<rparr>] :: unit TwoAgentEnv)
        h')"
proof -
  let ?E = "env_at [agent_main\<lparr>policy_func := constant_policy 7\<rparr>,
                    agent_main\<lparr>policy_func := constant_policy (- 3)\<rparr>] :: unit TwoAgentEnv"
  let ?H = "heap_at [0, 2]"
  have ok: "env_ok ?E ?H" by (rule env_ok_env_at)
  have ir: "in_range ?E ?H" by (simp add: in_range_def pos_list_def env_at_def heap_at_def)
  have np: "num_positions ?E = 5" by (simp add: env_at_def)
  have k0: "policy_func (agent_main\<lparr>policy_func := constant_policy 7\<rparr>)
              (view_of ?E [0, 2]) 0 () = (7, ())"
    by (simp add: constant_policy_def)
  have k1: "policy_func (agent_main\<lparr>policy_func := constant_policy (- 3)\<rparr>)
              (view_of ?E [0, 2]) 2 () = (- 3, ())"
    by (simp add: constant_policy_def)
  from nonzero_action_is_right[OF ok, of "()" 7 0 3] ir
  have t: "\<exists>r h' w'. step ?E ?H () = Inr (r, h', w')"
    and m: "move 5 7 0 = min 4 (0 + 1)"
    and s: "\<exists>h' w'. steps 3 ?E ?H () = Inr (h', w') \<and> in_range ?E h'"
    unfolding np by simp_all
  from t obtain r h' w' where st: "step ?E ?H () = Inr (r, h', w')" by blast
  have "pos_list ?E h' = [1, 3]"
    using st unfolding step_env_at[OF k0 k1]
    by (auto simp: pos_list_def env_at_def move_def)
  with st have t': "\<exists>r h' w'. step ?E ?H () = Inr (r, h', w') \<and> pos_list ?E h' = [1, 3]"
    by blast
  from ok ir m t' s show ?thesis by simp
qed

end
